theory Spec2Isabelle
  imports Complex_Main "HOL-Library.AList"
begin

chapter \<open>The program\<close>

section \<open>JSON values and transcript lines\<close>

text \<open>
  The transcript is a sequence of text lines. The program looks at a line only through
  \<^verbatim>\<open>JSON.parse\<close>, so a line is represented by what \<^verbatim>\<open>JSON.parse\<close> does with it:
  \<open>Raw s\<close> is a line on which it throws, \<open>Doc v\<close> a line for which it returns
  the value \<open>v\<close>. An object is the list of its properties in the order in which
  \<^verbatim>\<open>JSON.stringify\<close> writes them. Numbers are the integers (token counts and lengths
  are), strings have code units below 256. A line written by
  \<^verbatim>\<open>JSON.stringify(obj)\<close> is \<open>Doc obj\<close>.
\<close>

datatype json =
    JNull
  | JBool bool
  | JNum int
  | JStr string
  | JArr "json list"
  | JObj "(string \<times> json) list"

datatype line = Raw string | Doc json

text \<open>Truthiness of a JavaScript value that came from \<^verbatim>\<open>JSON.parse\<close>.\<close>

fun truthy :: "json \<Rightarrow> bool" where
  "truthy JNull = False"
| "truthy (JBool b) = b"
| "truthy (JNum n) = (n \<noteq> 0)"
| "truthy (JStr s) = (s \<noteq> [])"
| "truthy (JArr xs) = True"
| "truthy (JObj kvs) = True"

text \<open>
  Property read \<^verbatim>\<open>v.k\<close> on a value other than \<^verbatim>\<open>null\<close>, for the property names
  the program reads; \<open>None\<close> is \<^verbatim>\<open>undefined\<close>. On \<^verbatim>\<open>null\<close> the read throws, which
  every caller below handles before it calls \<open>getProp\<close>.
\<close>

fun getProp :: "json \<Rightarrow> string \<Rightarrow> json option" where
  "getProp (JObj kvs) k = map_of kvs k"
| "getProp (JArr xs) k = (if k = ''length'' then Some (JNum (int (length xs))) else None)"
| "getProp (JStr s) k = (if k = ''length'' then Some (JNum (int (length s))) else None)"
| "getProp v k = None"

text \<open>Optional chaining \<^verbatim>\<open>v?.k\<close> on a value that may be \<^verbatim>\<open>undefined\<close>.\<close>

fun optProp :: "json option \<Rightarrow> string \<Rightarrow> json option" where
  "optProp None k = None"
| "optProp (Some JNull) k = None"
| "optProp (Some v) k = getProp v k"

text \<open>Truthiness of a value that may be \<^verbatim>\<open>undefined\<close>.\<close>

fun truthyOpt :: "json option \<Rightarrow> bool" where
  "truthyOpt None = False"
| "truthyOpt (Some v) = truthy v"

text \<open>Property write \<^verbatim>\<open>v.k = x\<close> on an object: an existing property keeps its place.\<close>

fun setProp :: "json \<Rightarrow> string \<Rightarrow> json \<Rightarrow> json" where
  "setProp (JObj kvs) k x = JObj (AList.update k x kvs)"
| "setProp v k x = v"

subsection \<open>Numbers and strings\<close>

function digitsOf :: "nat \<Rightarrow> string" where
  "digitsOf n =
     (if n < 10 then [char_of (48 + n)]
      else digitsOf (n div 10) @ [char_of (48 + n mod 10)])"
  by pat_completeness auto
termination
  by (relation "measure id") auto

text \<open>\<^verbatim>\<open>String(n)\<close> for an integer \<open>n\<close>.\<close>

definition showInt :: "int \<Rightarrow> string" where
  "showInt i = (if i < 0 then CHR ''-'' # digitsOf (nat (- i)) else digitsOf (nat i))"

fun joinWith :: "string \<Rightarrow> string list \<Rightarrow> string" where
  "joinWith sep [] = []"
| "joinWith sep [x] = x"
| "joinWith sep (x # y # ys) = x @ sep @ joinWith sep (y # ys)"

text \<open>
  \<^verbatim>\<open>String(v)\<close>, the conversion JavaScript applies when a value is compared with a number
  or tested by a regular expression: an array is its elements joined by commas, with
  \<^verbatim>\<open>null\<close> elements empty.
\<close>

fun ToString :: "json \<Rightarrow> string" where
  "ToString JNull = ''null''"
| "ToString (JBool b) = (if b then ''true'' else ''false'')"
| "ToString (JNum n) = showInt n"
| "ToString (JStr s) = s"
| "ToString (JArr xs) =
     joinWith '','' (map (\<lambda>v. if v = JNull then [] else ToString v) xs)"
| "ToString (JObj kvs) = ''[object Object]''"

text \<open>
  The comparison \<^verbatim>\<open>v > 0\<close>. A number compares as it is, \<^verbatim>\<open>true\<close> is 1 and
  \<^verbatim>\<open>null\<close> is 0. Every other value is first converted to a string and that string to
  a number by the language's \<^verbatim>\<open>StringToNumber\<close>, which is no code of this repository:
  the parameter \<open>N\<close> says of a string whether its number is greater than zero.
\<close>

fun gtZero :: "(string \<Rightarrow> bool) \<Rightarrow> json \<Rightarrow> bool" where
  "gtZero N JNull = False"
| "gtZero N (JBool b) = b"
| "gtZero N (JNum n) = (0 < n)"
| "gtZero N v = N (ToString v)"

section \<open>The pruning transform (pruner.ts)\<close>

definition MSG_TYPES :: "string list" where
  "MSG_TYPES = [''user'', ''assistant'', ''system'']"

text \<open>\<^verbatim>\<open>MSG_TYPES.has(obj.type)\<close> for a parsed value; on \<^verbatim>\<open>null\<close> the read throws.\<close>

definition hasMsgType :: "json \<Rightarrow> bool" where
  "hasMsgType obj =
     (case getProp obj ''type'' of
        Some (JStr t) \<Rightarrow> t \<in> set MSG_TYPES
      | _ \<Rightarrow> False)"

fun isMessageLine :: "line \<Rightarrow> bool" where
  "isMessageLine (Raw s) = False"
| "isMessageLine (Doc obj) = (if obj = JNull then False else hasMsgType obj)"

text \<open>\<^verbatim>\<open>obj.usage || obj.message?.usage\<close>, for \<open>obj\<close> other than \<^verbatim>\<open>null\<close>.\<close>

definition usageOf :: "json \<Rightarrow> json option" where
  "usageOf obj =
     (if truthyOpt (getProp obj ''usage'') then getProp obj ''usage''
      else optProp (getProp obj ''message'') ''usage'')"

text \<open>\<^verbatim>\<open>usageObj?.cache_read_input_tokens\<close> of a line; \<open>None\<close> when the line is no
  JSON, when reading it throws, or when the property is \<^verbatim>\<open>undefined\<close>.\<close>

fun cacheReadTokens :: "line \<Rightarrow> json option" where
  "cacheReadTokens (Raw s) = None"
| "cacheReadTokens (Doc obj) =
     (if obj = JNull then None else optProp (usageOf obj) ''cache_read_input_tokens'')"

text \<open>The test of the first pass:
  \<^verbatim>\<open>usageObj?.cache_read_input_tokens && usageObj.cache_read_input_tokens > 0\<close>.\<close>

definition cachePositive :: "(string \<Rightarrow> bool) \<Rightarrow> line \<Rightarrow> bool" where
  "cachePositive N l =
     (case cacheReadTokens l of
        None \<Rightarrow> False
      | Some c \<Rightarrow> truthy c \<and> gtZero N c)"

text \<open>
  The first pass of \<^verbatim>\<open>applyCacheTokenHack\<close>: the index of the last line that passes the
  test, starting from \<open>-1\<close>.
\<close>

definition lastNonZeroCacheLineIndex :: "(string \<Rightarrow> bool) \<Rightarrow> line list \<Rightarrow> int" where
  "lastNonZeroCacheLineIndex N lines =
     foldl (\<lambda>acc (i, l). if cachePositive N l then int i else acc) (- 1)
       (enumerate 0 lines)"

text \<open>
  The write \<^verbatim>\<open>usageObj.cache_read_input_tokens = 0\<close> on the value \<open>u\<close> that
  \<open>usageObj\<close> refers to. \<open>None\<close> is a thrown TypeError: the modules are strict code,
  where writing a property of a number, a string or a boolean throws, as it does on
  \<^verbatim>\<open>null\<close>. A property written on an array is not serialised.
\<close>

fun writeZero :: "json \<Rightarrow> json option" where
  "writeZero (JObj kvs) = Some (setProp (JObj kvs) ''cache_read_input_tokens'' (JNum 0))"
| "writeZero (JArr xs) = Some (JArr xs)"
| "writeZero v = None"

text \<open>
  \<open>obj\<close> after \<^verbatim>\<open>if (usageObj) { usageObj.cache_read_input_tokens = 0 }\<close>, where
  \<open>usageObj\<close> is \<^verbatim>\<open>obj.usage || obj.message?.usage\<close>: the write goes to the direct
  usage object when that is truthy, and otherwise to the one below \<^verbatim>\<open>message\<close>, when
  that is truthy. \<open>None\<close> is a thrown TypeError.
\<close>

definition zeroNested :: "json \<Rightarrow> json option" where
  "zeroNested obj =
     (case getProp obj ''message'' of
        None \<Rightarrow> Some obj
      | Some m \<Rightarrow>
          (case optProp (Some m) ''usage'' of
             None \<Rightarrow> Some obj
           | Some u \<Rightarrow>
               if truthy u
               then map_option (\<lambda>u'. setProp obj ''message'' (setProp m ''usage'' u'))
                      (writeZero u)
               else Some obj))"

definition zeroUsage :: "json \<Rightarrow> json option" where
  "zeroUsage obj =
     (case getProp obj ''usage'' of
        None \<Rightarrow> zeroNested obj
      | Some u \<Rightarrow>
          if truthy u then map_option (setProp obj ''usage'') (writeZero u)
          else zeroNested obj)"

text \<open>
  The body of the second pass of \<^verbatim>\<open>SmartPruner.applyCacheTokenHack\<close> for the line at
  the index found: parse, write the zero, serialise; when anything throws, the line is
  returned as it is.
\<close>

fun rewriteLine :: "line \<Rightarrow> line" where
  "rewriteLine (Raw s) = Raw s"
| "rewriteLine (Doc obj) =
     (if obj = JNull then Doc obj
      else (case zeroUsage obj of None \<Rightarrow> Doc obj | Some obj' \<Rightarrow> Doc obj'))"

definition applyCacheTokenHack :: "(string \<Rightarrow> bool) \<Rightarrow> line list \<Rightarrow> line list" where
  "applyCacheTokenHack N lines =
     (let lastIdx = lastNonZeroCacheLineIndex N lines
      in map (\<lambda>(i, l). if int i = lastIdx then rewriteLine l else l)
           (enumerate 0 lines))"

record PrunedLines =
  outLines :: "line list"
  kept :: nat
  dropped :: nat

record PruneResult = PrunedLines +
  strategy :: string

text \<open>The body of the \<^verbatim>\<open>forEach\<close> of \<^verbatim>\<open>pruneWithIndices\<close>.\<close>

definition pruneStep :: "nat list \<Rightarrow> PruneResult \<Rightarrow> nat \<times> line \<Rightarrow> PruneResult" where
  "pruneStep indicesToKeep r p =
     (case p of (idx, l) \<Rightarrow>
        if idx = 0 then r
        else if isMessageLine l then
          (if idx \<in> set indicesToKeep
           then r\<lparr>outLines := outLines r @ [l], kept := kept r + 1\<rparr>
           else r\<lparr>dropped := dropped r + 1\<rparr>)
        else r\<lparr>outLines := outLines r @ [l]\<rparr>)"

definition pruneWithIndices ::
  "(string \<Rightarrow> bool) \<Rightarrow> line list \<Rightarrow> nat list \<Rightarrow> string \<Rightarrow> PruneResult" where
  "pruneWithIndices N lines indicesToKeep strat =
     (let out0 = (if 0 < length lines then [lines ! 0] else []);
          processedLines = applyCacheTokenHack N lines
      in foldl (pruneStep indicesToKeep)
           \<lparr>outLines = out0, kept = 0, dropped = 0, strategy = strat\<rparr>
           (enumerate 0 processedLines))"

section \<open>Legacy mode\<close>

text \<open>
  Pass 1 of both legacy functions: the positions of the message lines and of the
  assistant lines, position 0 skipped. Destructuring \<^verbatim>\<open>null\<close> throws, which the
  \<^verbatim>\<open>catch\<close> swallows.
\<close>

definition isAssistant :: "json \<Rightarrow> bool" where
  "isAssistant obj = (getProp obj ''type'' = Some (JStr ''assistant''))"

definition scanStep :: "nat list \<times> nat list \<Rightarrow> nat \<times> line \<Rightarrow> nat list \<times> nat list" where
  "scanStep acc p =
     (case acc of (msgIndices, assistantIndices) \<Rightarrow>
      case p of (i, l) \<Rightarrow>
        if i = 0 then acc
        else (case l of
                Raw s \<Rightarrow> acc
              | Doc obj \<Rightarrow>
                  if obj = JNull then acc
                  else if hasMsgType obj then
                    (msgIndices @ [i],
                     if isAssistant obj then assistantIndices @ [i] else assistantIndices)
                  else acc))"

definition scanMessages :: "line list \<Rightarrow> nat list \<times> nat list" where
  "scanMessages lines = foldl scanStep ([], []) (enumerate 0 lines)"

text \<open>An array read \<^verbatim>\<open>xs[i]\<close>: \<^verbatim>\<open>undefined\<close> outside the array.\<close>

definition arrayAt :: "'a list \<Rightarrow> int \<Rightarrow> 'a option" where
  "arrayAt xs i = (if 0 \<le> i \<and> i < int (length xs) then Some (xs ! nat i) else None)"

text \<open>\<^verbatim>\<open>idx >= cutFrom\<close>: comparing with \<^verbatim>\<open>undefined\<close> is false.\<close>

fun geCut :: "nat \<Rightarrow> nat option \<Rightarrow> bool" where
  "geCut idx None = False"
| "geCut idx (Some c) = (c \<le> idx)"

subsection \<open>The function pruneSessionLines of index.ts\<close>

text \<open>
  Its second cache pass writes the zero without the guard \<^verbatim>\<open>if (usageObj)\<close>: the write
  throws when \<open>usageObj\<close> is \<^verbatim>\<open>undefined\<close>, \<^verbatim>\<open>null\<close> or a primitive value.
\<close>

definition zeroNestedLegacy :: "json \<Rightarrow> json option" where
  "zeroNestedLegacy obj =
     (case getProp obj ''message'' of
        None \<Rightarrow> None
      | Some m \<Rightarrow>
          (case optProp (Some m) ''usage'' of
             None \<Rightarrow> None
           | Some u \<Rightarrow>
               map_option (\<lambda>u'. setProp obj ''message'' (setProp m ''usage'' u'))
                 (writeZero u)))"

definition zeroUsageLegacy :: "json \<Rightarrow> json option" where
  "zeroUsageLegacy obj =
     (case getProp obj ''usage'' of
        None \<Rightarrow> zeroNestedLegacy obj
      | Some u \<Rightarrow>
          if truthy u then map_option (setProp obj ''usage'') (writeZero u)
          else zeroNestedLegacy obj)"

fun rewriteLineLegacy :: "line \<Rightarrow> line" where
  "rewriteLineLegacy (Raw s) = Raw s"
| "rewriteLineLegacy (Doc obj) =
     (if obj = JNull then Doc obj
      else (case zeroUsageLegacy obj of None \<Rightarrow> Doc obj | Some obj' \<Rightarrow> Doc obj'))"

record LegacyResult = PrunedLines +
  assistantCount :: nat

text \<open>The body of the last \<^verbatim>\<open>forEach\<close> of the function.\<close>

definition legacyStep :: "nat option \<Rightarrow> LegacyResult \<Rightarrow> nat \<times> line \<Rightarrow> LegacyResult" where
  "legacyStep cutFrom r p =
     (case p of (idx, l) \<Rightarrow>
        if idx = 0 then r
        else if isMessageLine l then
          (if geCut idx cutFrom
           then r\<lparr>outLines := outLines r @ [l], kept := kept r + 1\<rparr>
           else r\<lparr>dropped := dropped r + 1\<rparr>)
        else r\<lparr>outLines := outLines r @ [l]\<rparr>)"

definition pruneSessionLines ::
  "(string \<Rightarrow> bool) \<Rightarrow> line list \<Rightarrow> int \<Rightarrow> LegacyResult" where
  "pruneSessionLines N lines keepN =
     (let (msgIndexes, assistantIndexes) = scanMessages lines;
          keepNSafe = max 0 keepN;
          cutFrom =
            (if keepNSafe < int (length assistantIndexes)
             then arrayAt assistantIndexes (int (length assistantIndexes) - keepNSafe)
             else Some 0);
          out0 = (if 0 < length lines then [lines ! 0] else []);
          lastIdx = lastNonZeroCacheLineIndex N lines;
          processedLines =
            map (\<lambda>(i, l). if int i = lastIdx then rewriteLineLegacy l else l)
              (enumerate 0 lines)
      in foldl (legacyStep cutFrom)
           \<lparr>outLines = out0, kept = 0, dropped = 0,
            assistantCount = length assistantIndexes\<rparr>
           (enumerate 0 processedLines))"

subsection \<open>The method SmartPruner.pruneSessionLines\<close>

text \<open>
  The object it returns is the result of \<open>pruneWithIndices\<close> with \<open>assistantCount\<close>
  added; its declared type has the four fields of \<open>LegacyResult\<close>.
\<close>

definition SmartPruner_pruneSessionLines ::
  "(string \<Rightarrow> bool) \<Rightarrow> line list \<Rightarrow> int \<Rightarrow> LegacyResult" where
  "SmartPruner_pruneSessionLines N lines keepN =
     (let (msgIndices, assistantIndices) = scanMessages lines;
          indicesToKeep =
            (if keepN < int (length assistantIndices) then
               (let cutFrom = arrayAt assistantIndices (int (length assistantIndices) - keepN)
                in filter (\<lambda>idx. geCut idx cutFrom) msgIndices)
             else msgIndices);
          result =
            pruneWithIndices N lines indicesToKeep
              (''Keep last '' @ showInt keepN @ '' assistant messages'')
      in \<lparr>outLines = outLines result, kept = kept result, dropped = dropped result,
          assistantCount = length assistantIndices\<rparr>)"

section \<open>The session analyzer (analyzer.ts)\<close>

subsection \<open>Text tests\<close>

text \<open>
  The regular expressions of the detectors, on strings with code units below 256.
  White space (\<^verbatim>\<open>\s\<close>) is then tab, line feed, vertical tab, form feed, carriage
  return, space and no-break space; a line (flag \<^verbatim>\<open>m\<close>) starts at the start of the
  string and after a line feed or a carriage return.
\<close>

definition isSpace :: "char \<Rightarrow> bool" where
  "isSpace c = (of_char c \<in> set [9, 10, 11, 12, 13, 32, 160 :: nat])"

definition isLineTerminator :: "char \<Rightarrow> bool" where
  "isLineTerminator c = (of_char c \<in> set [10, 13 :: nat])"

text \<open>The rest of \<open>s\<close> after the first occurrence of \<open>w\<close>.\<close>

fun findAfter :: "string \<Rightarrow> string \<Rightarrow> string option" where
  "findAfter w [] = (if w = [] then Some [] else None)"
| "findAfter w (c # s) =
     (if take (length w) (c # s) = w then Some (drop (length w) (c # s))
      else findAfter w s)"

definition containsStr :: "string \<Rightarrow> string \<Rightarrow> bool" where
  "containsStr s w = (findAfter w s \<noteq> None)"

text \<open>The test of a fenced block: three backquotes, anything, three backquotes.\<close>

definition fence :: string where
  "fence = replicate 3 (char_of (96 :: nat))"

definition fenceTest :: "string \<Rightarrow> bool" where
  "fenceTest s = (case findAfter fence s of None \<Rightarrow> False | Some rest \<Rightarrow> containsStr rest fence)"

text \<open>
  The test of a declaration: at the start of a line, white space, one of the keywords,
  and at least one white space. No keyword starts with white space, so the keyword starts
  where the white space ends.
\<close>

definition declKeywords :: "string list" where
  "declKeywords = [''import'', ''export'', ''function'', ''class'', ''const'', ''let'', ''var'']"

definition startsDecl :: "string \<Rightarrow> bool" where
  "startsDecl s =
     (let t = dropWhile isSpace s
      in list_ex (\<lambda>k. take (length k) t = k \<and>
                       (case drop (length k) t of [] \<Rightarrow> False | c # r \<Rightarrow> isSpace c))
           declKeywords)"

fun declAfterTerminator :: "string \<Rightarrow> bool" where
  "declAfterTerminator [] = False"
| "declAfterTerminator (c # s) = ((isLineTerminator c \<and> startsDecl s) \<or> declAfterTerminator s)"

definition declTest :: "string \<Rightarrow> bool" where
  "declTest s = (startsDecl s \<or> declAfterTerminator s)"

text \<open>\<^verbatim>\<open>toLowerCase\<close> on code units below 256.\<close>

definition lowerChar :: "char \<Rightarrow> char" where
  "lowerChar c =
     (let n = (of_char c :: nat)
      in if (65 \<le> n \<and> n \<le> 90) \<or> (192 \<le> n \<and> n \<le> 222 \<and> n \<noteq> 215)
         then char_of (n + 32) else c)"

definition toLowerCase :: "string \<Rightarrow> string" where
  "toLowerCase s = map lowerChar s"

definition errorWords :: "string list" where
  "errorWords =
     [''error'', ''exception'', ''failed'', ''failure'', ''bug'', ''issue'', ''problem'']"

definition errorTest :: "string \<Rightarrow> bool" where
  "errorTest s = list_ex (containsStr s) errorWords"

subsection \<open>Serialisation\<close>

text \<open>
  \<^verbatim>\<open>JSON.stringify\<close> on the values of the model; the analyzer reads its length.
  A number is written with all its digits, as the program writes an integer whose absolute
  value is below \<open>10\<^sup>2\<^sup>1\<close>.
\<close>

definition hexDigit :: "nat \<Rightarrow> char" where
  "hexDigit n = (if n < 10 then char_of (48 + n) else char_of (87 + n))"

definition escapeChar :: "char \<Rightarrow> string" where
  "escapeChar c =
     (let n = (of_char c :: nat)
      in if n = 34 then [char_of (92 :: nat), c]
         else if n = 92 then [c, c]
         else if n = 8 then [char_of (92 :: nat), CHR ''b'']
         else if n = 9 then [char_of (92 :: nat), CHR ''t'']
         else if n = 10 then [char_of (92 :: nat), CHR ''n'']
         else if n = 12 then [char_of (92 :: nat), CHR ''f'']
         else if n = 13 then [char_of (92 :: nat), CHR ''r'']
         else if n < 32 then
           [char_of (92 :: nat), CHR ''u'', CHR ''0'', CHR ''0'', hexDigit (n div 16),
            hexDigit (n mod 16)]
         else [c])"

definition quoteString :: "string \<Rightarrow> string" where
  "quoteString s = char_of (34 :: nat) # concat (map escapeChar s) @ [char_of (34 :: nat)]"

fun stringify :: "json \<Rightarrow> string" where
  "stringify JNull = ''null''"
| "stringify (JBool b) = (if b then ''true'' else ''false'')"
| "stringify (JNum n) = showInt n"
| "stringify (JStr s) = quoteString s"
| "stringify (JArr xs) = ''['' @ joinWith '','' (map stringify xs) @ '']''"
| "stringify (JObj kvs) =
     ''{'' @ joinWith '','' (map (\<lambda>kv. quoteString (fst kv) @ '':'' @ stringify (snd kv)) kvs)
       @ ''}''"

subsection \<open>The detectors\<close>

text \<open>\<^verbatim>\<open>obj.content || obj.message?.content || ''\<close>.\<close>

definition contentOf :: "json \<Rightarrow> json" where
  "contentOf obj =
     (case getProp obj ''content'' of
        Some c \<Rightarrow> if truthy c then c else
          (case optProp (getProp obj ''message'') ''content'' of
             Some d \<Rightarrow> if truthy d then d else JStr []
           | None \<Rightarrow> JStr [])
      | None \<Rightarrow>
          (case optProp (getProp obj ''message'') ''content'' of
             Some d \<Rightarrow> if truthy d then d else JStr []
           | None \<Rightarrow> JStr []))"

text \<open>The regular expressions convert the content to a string before they test it.\<close>

definition detectCode :: "json \<Rightarrow> bool" where
  "detectCode obj = (fenceTest (ToString (contentOf obj)) \<or> declTest (ToString (contentOf obj)))"

text \<open>\<^verbatim>\<open>obj.error && obj.error.length > 0\<close>, as the truth value the callers test.\<close>

definition errorPayload :: "(string \<Rightarrow> bool) \<Rightarrow> json \<Rightarrow> bool" where
  "errorPayload N obj =
     (case getProp obj ''error'' of
        None \<Rightarrow> False
      | Some e \<Rightarrow>
          truthy e \<and>
          (case getProp e ''length'' of None \<Rightarrow> False | Some n \<Rightarrow> gtZero N n))"

text \<open>
  \<open>detectError\<close> calls \<^verbatim>\<open>toLowerCase\<close> on the content: when the content is no string
  (an array of content blocks, an object, a number, \<^verbatim>\<open>true\<close>) that call throws a
  TypeError, the value \<open>None\<close>.
\<close>

definition detectError :: "(string \<Rightarrow> bool) \<Rightarrow> json \<Rightarrow> bool option" where
  "detectError N obj =
     (case contentOf obj of
        JStr s \<Rightarrow> Some (errorTest (toLowerCase s) \<or> errorPayload N obj)
      | _ \<Rightarrow> None)"

definition detectFileEdit :: "json \<Rightarrow> bool" where
  "detectFileEdit obj =
     (optProp (getProp obj ''tool_use'') ''name'' = Some (JStr ''Edit'') \<or>
      optProp (getProp obj ''tool_use'') ''name'' = Some (JStr ''Write'') \<or>
      optProp (getProp obj ''tool_use'') ''name'' = Some (JStr ''MultiEdit''))"

definition detectToolUse :: "json \<Rightarrow> bool" where
  "detectToolUse obj =
     (truthyOpt (getProp obj ''tool_use'') \<or> truthyOpt (getProp obj ''tool_uses''))"

subsection \<open>The analysis pass\<close>

record MessageInfo =
  index :: nat
  msgType :: string
  content :: string
  hasCode :: bool
  hasError :: bool
  hasFileEdit :: bool
  hasTool :: bool
  msgLength :: nat
  timestamp :: "json option"

record SessionAnalyzer =
  messageIndices :: "nat list"
  assistantIndices :: "nat list"
  messageDetails :: "MessageInfo list"

text \<open>
  The body of the \<^verbatim>\<open>forEach\<close> of \<open>analyze\<close>. The positions are pushed first; the
  detail record is pushed last, so when \<open>detectError\<close> throws inside the \<^verbatim>\<open>try\<close> the
  \<^verbatim>\<open>catch\<close> leaves the position in \<open>messageIndices\<close> without a detail record.
\<close>

definition analyzeStep ::
  "(string \<Rightarrow> bool) \<Rightarrow> SessionAnalyzer \<Rightarrow> nat \<times> line \<Rightarrow> SessionAnalyzer" where
  "analyzeStep N a p =
     (case p of (idx, l) \<Rightarrow>
        if idx = 0 then a
        else (case l of
                Raw s \<Rightarrow> a
              | Doc obj \<Rightarrow>
                  if obj = JNull then a
                  else if hasMsgType obj then
                    (let a1 = a\<lparr>messageIndices := messageIndices a @ [idx]\<rparr>;
                         a2 = (if isAssistant obj
                               then a1\<lparr>assistantIndices := assistantIndices a1 @ [idx]\<rparr>
                               else a1)
                     in case detectError N obj of
                          None \<Rightarrow> a2
                        | Some e \<Rightarrow>
                            a2\<lparr>messageDetails := messageDetails a2 @
                               [\<lparr>index = idx,
                                 msgType = (case getProp obj ''type'' of Some (JStr t) \<Rightarrow> t | _ \<Rightarrow> []),
                                 content = ToString (contentOf obj),
                                 hasCode = detectCode obj,
                                 hasError = e,
                                 hasFileEdit = detectFileEdit obj,
                                 hasTool = detectToolUse obj,
                                 msgLength = length (stringify obj),
                                 timestamp = getProp obj ''timestamp''\<rparr>]\<rparr>)
                  else a))"

definition analyze :: "(string \<Rightarrow> bool) \<Rightarrow> line list \<Rightarrow> SessionAnalyzer" where
  "analyze N lines =
     foldl (analyzeStep N)
       \<lparr>messageIndices = [], assistantIndices = [], messageDetails = []\<rparr>
       (enumerate 0 lines)"

subsection \<open>Work phases\<close>

record Characteristics =
  codeBlocks :: nat
  errors :: nat
  fileEdits :: nat
  toolUses :: nat

record WorkPhase =
  start :: int
  endIdx :: int
  description :: string
  messageCount :: nat
  characteristics :: Characteristics

text \<open>\<^verbatim>\<open>xs.indexOf(x)\<close>: the first index of \<open>x\<close>, or \<open>-1\<close>.\<close>

fun indexOf :: "nat list \<Rightarrow> nat \<Rightarrow> int" where
  "indexOf [] x = - 1"
| "indexOf (y # ys) x =
     (if y = x then 0 else (let r = indexOf ys x in if r < 0 then - 1 else r + 1))"

text \<open>\<^verbatim>\<open>a < b\<close> where \<open>b\<close> may be \<^verbatim>\<open>undefined\<close>: then the comparison is false.\<close>

fun ltOpt :: "nat \<Rightarrow> nat option \<Rightarrow> bool" where
  "ltOpt a None = False"
| "ltOpt a (Some b) = (a < b)"

text \<open>
  \<open>classifyPhase\<close>. The counts are integers and a window has at most 10 messages, so
  the comparisons with \<^verbatim>\<open>total * 0.3\<close> and \<^verbatim>\<open>total * 0.4\<close> are the integer
  comparisons below. On an empty window \<^verbatim>\<open>messages[0].index\<close> throws: \<open>None\<close>.
\<close>

definition classifyPhase ::
  "SessionAnalyzer \<Rightarrow> Characteristics \<Rightarrow> MessageInfo list \<Rightarrow> string option" where
  "classifyPhase a ch messages =
     (let total = length messages
      in if 3 * total < 10 * errors ch then Some ''Debugging and error resolution''
         else if 3 * total < 10 * fileEdits ch \<or> 4 * total < 10 * codeBlocks ch
           then Some ''Implementation and coding''
         else if 4 * total < 10 * toolUses ch \<and> fileEdits ch = 0
           then Some ''Exploration and file reading''
         else if list_all (\<lambda>m. msgType m = ''user'' \<or> msgType m = ''assistant'') messages
                 \<and> toolUses ch = 0
           then (case messages of
                   [] \<Rightarrow> None
                 | m # ms \<Rightarrow>
                     if ltOpt (index m) (arrayAt (messageIndices a) 5)
                     then Some ''Initial setup and requirements''
                     else Some ''Discussion and planning'')
         else Some ''General development'')"

definition windowCharacteristics :: "MessageInfo list \<Rightarrow> Characteristics" where
  "windowCharacteristics window =
     \<lparr>codeBlocks = length (filter hasCode window),
      errors = length (filter hasError window),
      fileEdits = length (filter hasFileEdit window),
      toolUses = length (filter hasTool window)\<rparr>"

definition addCharacteristics :: "Characteristics \<Rightarrow> Characteristics \<Rightarrow> Characteristics" where
  "addCharacteristics c d =
     \<lparr>codeBlocks = codeBlocks c + codeBlocks d, errors = errors c + errors d,
      fileEdits = fileEdits c + fileEdits d, toolUses = toolUses c + toolUses d\<rparr>"

text \<open>\<^verbatim>\<open>xs.slice(i, j)\<close> for \<open>0 \<le> i\<close> and \<open>0 \<le> j\<close>.\<close>

definition slice :: "'a list \<Rightarrow> nat \<Rightarrow> nat \<Rightarrow> 'a list" where
  "slice xs i j = take (min j (length xs) - i) (drop i xs)"

text \<open>
  The \<^verbatim>\<open>for\<close> loop of \<open>detectWorkPhases\<close> from index \<open>i\<close> on, with the phases pushed so
  far and the current phase. \<open>None\<close> is a thrown TypeError.
\<close>

function phaseLoop ::
  "SessionAnalyzer \<Rightarrow> nat \<Rightarrow> WorkPhase list \<Rightarrow> WorkPhase option \<Rightarrow>
   (WorkPhase list \<times> WorkPhase option) option" where
  "phaseLoop a i phases currentPhase =
     (if i < length (messageDetails a) then
        (let window = slice (messageDetails a) i (min (i + 10) (length (messageDetails a)));
             ch = windowCharacteristics window
         in case classifyPhase a ch window of
              None \<Rightarrow> None
            | Some phaseType \<Rightarrow>
                (let fresh =
                       \<lparr>start = indexOf (messageIndices a) (index (hd window)),
                        endIdx = indexOf (messageIndices a) (index (last window)),
                        description = phaseType,
                        messageCount = length window,
                        characteristics = ch\<rparr>
                 in case currentPhase of
                      None \<Rightarrow> phaseLoop a (i + 10) phases (Some fresh)
                    | Some cur \<Rightarrow>
                        if phaseType \<noteq> description cur
                        then phaseLoop a (i + 10) (phases @ [cur]) (Some fresh)
                        else phaseLoop a (i + 10) phases
                               (Some (cur\<lparr>endIdx :=
                                            indexOf (messageIndices a) (index (last window)),
                                          messageCount := messageCount cur + length window,
                                          characteristics :=
                                            addCharacteristics (characteristics cur) ch\<rparr>))))
      else Some (phases, currentPhase))"
  by pat_completeness auto
termination
  by (relation "measure (\<lambda>(a, i, phases, currentPhase). length (messageDetails a) - i)") auto

declare phaseLoop.simps [simp del]

text \<open>The loop of \<open>mergePhases\<close>: the phases merged so far, the current one, the rest.\<close>

fun mergeLoop :: "WorkPhase list \<Rightarrow> WorkPhase \<Rightarrow> WorkPhase list \<Rightarrow> WorkPhase list" where
  "mergeLoop merged current [] = merged @ [current]"
| "mergeLoop merged current (p # ps) =
     (if description p = description current \<and> start p - endIdx current \<le> 3
      then mergeLoop merged
             (current\<lparr>endIdx := endIdx p,
                      messageCount := messageCount current + messageCount p,
                      characteristics :=
                        addCharacteristics (characteristics current) (characteristics p)\<rparr>)
             ps
      else mergeLoop (merged @ [current]) p ps)"

fun mergePhases :: "WorkPhase list \<Rightarrow> WorkPhase list" where
  "mergePhases [] = []"
| "mergePhases [p] = [p]"
| "mergePhases (p # q # ps) = mergeLoop [] p (q # ps)"

definition detectWorkPhases :: "SessionAnalyzer \<Rightarrow> WorkPhase list option" where
  "detectWorkPhases a =
     (if length (messageDetails a) = 0 then Some []
      else (case phaseLoop a 0 [] None of
              None \<Rightarrow> None
            | Some (phases, currentPhase) \<Rightarrow>
                Some (mergePhases
                        (case currentPhase of
                           None \<Rightarrow> phases
                         | Some cur \<Rightarrow> phases @ [cur]))))"

subsection \<open>Key messages\<close>

text \<open>
  \<open>scoreMessage\<close>, in exact arithmetic. The program computes the recency bonus in
  floating point; nothing proved below depends on the value of a score.
\<close>

definition scoreMessage :: "SessionAnalyzer \<Rightarrow> MessageInfo \<Rightarrow> rat" where
  "scoreMessage a m =
     (if hasFileEdit m then 10 else 0) + (if hasCode m then 5 else 0)
     + (if hasError m then 7 else 0) + (if hasTool m then 3 else 0)
     + (if 1000 < msgLength m then 2 else 0) + (if 2000 < msgLength m then 3 else 0)
     + (of_int (indexOf (messageIndices a) (index m))
          / of_nat (length (messageIndices a))) * 3"

text \<open>
  \<open>findKeyMessages\<close>. The sort by \<^verbatim>\<open>b.score - a.score\<close> is a stable sort by falling
  score; \<^verbatim>\<open>Math.floor(n * 0.2)\<close> is \<open>n div 5\<close>.
\<close>

definition findKeyMessages :: "SessionAnalyzer \<Rightarrow> nat list" where
  "findKeyMessages a =
     (let scored = map (\<lambda>m. (index m, scoreMessage a m)) (messageDetails a);
          sorted = sort_key (\<lambda>s. - snd s) scored;
          keepCount = max 10 (length (messageDetails a) div 5)
      in sort (map fst (take keepCount sorted)))"

section \<open>Selections (interactive.ts and index.ts)\<close>

text \<open>\<^verbatim>\<open>xs.slice(s)\<close> with one argument: a negative start counts from the end, and
  \<open>-0\<close> is \<open>0\<close>.\<close>

definition sliceFrom :: "'a list \<Rightarrow> int \<Rightarrow> 'a list" where
  "sliceFrom xs s =
     (if s < 0 then drop (nat (max (int (length xs) + s) 0)) xs else drop (nat s) xs)"

text \<open>
  \<^verbatim>\<open>Math.round(((total - selected) / total) * 100)\<close> in exact arithmetic; \<open>None\<close> is
  \<^verbatim>\<open>NaN\<close>, the value of \<open>0 / 0\<close>. The doubles of the program agree with the exact
  value whenever the quotient is 0.
\<close>

definition percentFreed :: "nat \<Rightarrow> nat \<Rightarrow> int option" where
  "percentFreed totalMessages selected =
     (if totalMessages = 0 then None
      else Some (\<lfloor>((of_nat totalMessages - of_nat selected) / of_nat totalMessages) * 100
                  + (1 / 2 :: rat)\<rfloor>))"

text \<open>
  The first two strategies of \<open>buildStrategies\<close>, with their percentages.
  \<^verbatim>\<open>Math.floor(n * 0.6)\<close>, \<^verbatim>\<open>Math.floor(n * 0.1)\<close> and \<^verbatim>\<open>Math.floor(n * 0.3)\<close> are
  the integer quotients below.
\<close>

definition recentIndices :: "SessionAnalyzer \<Rightarrow> nat list" where
  "recentIndices a =
     (let totalMessages = length (messageIndices a);
          recentStart = (totalMessages * 6) div 10
      in sliceFrom (messageIndices a) (int recentStart))"

definition bookendIndices :: "SessionAnalyzer \<Rightarrow> nat list" where
  "bookendIndices a =
     (let totalMessages = length (messageIndices a);
          firstCount = min 10 (totalMessages div 10);
          lastCount = min 30 ((totalMessages * 3) div 10)
      in slice (messageIndices a) 0 firstCount @ sliceFrom (messageIndices a) (- int lastCount))"

definition bookendFreed :: "SessionAnalyzer \<Rightarrow> int option" where
  "bookendFreed a = percentFreed (length (messageIndices a)) (length (bookendIndices a))"

text \<open>The indices \<open>main\<close> keeps in the non-interactive mode:
  \<^verbatim>\<open>messageIndices.slice(Math.floor(totalMessages * 0.4))\<close>.\<close>

definition autoIndices :: "SessionAnalyzer \<Rightarrow> nat list" where
  "autoIndices a =
     (let totalMessages = length (messageIndices a);
          recentStart = (totalMessages * 4) div 10
      in sliceFrom (messageIndices a) (int recentStart))"

section \<open>Notions used in the statements\<close>

text \<open>
  The cache-read token count of a line. The usage object of a record is its direct usage
  field when the value of that field is truthy, and otherwise the usage field below
  \<^verbatim>\<open>message\<close>; \<open>usagePath\<close> is the list of property names that leads to it, and
  \<open>countPath\<close> the one that leads to the count in it. \<open>getPath\<close> reads the value at
  the end of a path (\<open>None\<close> when a property on the way is missing), and \<open>setPath\<close>
  replaces the value at the end of a path and nothing else (a record with a property
  missing on the way stays as it is).
\<close>

definition usagePath :: "json \<Rightarrow> string list" where
  "usagePath obj =
     (if truthyOpt (getProp obj ''usage'') then [''usage''] else [''message'', ''usage''])"

definition countPath :: "json \<Rightarrow> string list" where
  "countPath obj = usagePath obj @ [''cache_read_input_tokens'']"

fun getPath :: "json \<Rightarrow> string list \<Rightarrow> json option" where
  "getPath v [] = Some v"
| "getPath v (k # ks) = (case getProp v k of None \<Rightarrow> None | Some w \<Rightarrow> getPath w ks)"

fun setPath :: "json \<Rightarrow> string list \<Rightarrow> json \<Rightarrow> json" where
  "setPath v [] x = x"
| "setPath v (k # ks) x =
     (case getProp v k of None \<Rightarrow> v | Some w \<Rightarrow> setProp v k (setPath w ks x))"

text \<open>The count of a line, and the line with the value \<open>x\<close> in the place of its count.\<close>

fun cacheCount :: "line \<Rightarrow> json option" where
  "cacheCount (Raw s) = None"
| "cacheCount (Doc obj) = getPath obj (countPath obj)"

fun withCount :: "json \<Rightarrow> line \<Rightarrow> line" where
  "withCount x (Raw s) = Raw s"
| "withCount x (Doc obj) = Doc (setPath obj (countPath obj) x)"

text \<open>
  A line has a positive count when the count is there, is truthy and compares greater
  than zero. The target of the fix-up is the position of the last line of the whole
  sequence, position 0 included, that has a positive count.
\<close>

definition positiveCount :: "(string \<Rightarrow> bool) \<Rightarrow> line \<Rightarrow> bool" where
  "positiveCount N l =
     (case cacheCount l of None \<Rightarrow> False | Some c \<Rightarrow> truthy c \<and> gtZero N c)"

definition isTarget :: "(string \<Rightarrow> bool) \<Rightarrow> line list \<Rightarrow> nat \<Rightarrow> bool" where
  "isTarget N lines i =
     (i < length lines \<and> positiveCount N (lines ! i) \<and>
      \<not> list_ex (positiveCount N) (drop (Suc i) lines))"


text \<open>
  The turns of a line sequence: the positions after 0 whose line decodes to a record of
  type user, assistant or system; and the assistant turns among them.
\<close>

fun isAssistantLine :: "line \<Rightarrow> bool" where
  "isAssistantLine (Raw s) = False"
| "isAssistantLine (Doc obj) = (obj \<noteq> JNull \<and> hasMsgType obj \<and> isAssistant obj)"

definition turnPositions :: "line list \<Rightarrow> nat list" where
  "turnPositions lines = filter (\<lambda>i. isMessageLine (lines ! i)) [1..<length lines]"

definition assistantPositions :: "line list \<Rightarrow> nat list" where
  "assistantPositions lines = filter (\<lambda>i. isAssistantLine (lines ! i)) [1..<length lines]"

text \<open>
  The global position of the assistant turn number \<open>count - N + 1\<close>, counted from 1 at
  the start, where \<open>count\<close> is the number of assistant turns: the \<open>N\<close>-th assistant
  turn from the end. It is read for \<open>1 \<le> N \<le> count\<close> only.
\<close>

definition cutoffPosition :: "line list \<Rightarrow> int \<Rightarrow> nat" where
  "cutoffPosition lines keepN =
     assistantPositions lines ! (length (assistantPositions lines) - nat keepN)"

text \<open>A line whose content the analysis can read as text: every line but a record whose
  content is no string.\<close>

fun textContent :: "line \<Rightarrow> bool" where
  "textContent (Raw s) = True"
| "textContent (Doc obj) = (case contentOf obj of JStr s \<Rightarrow> True | _ \<Rightarrow> False)"

definition allTurnsText :: "line list \<Rightarrow> bool" where
  "allTurnsText lines = list_all (\<lambda>l. isMessageLine l \<longrightarrow> textContent l) (drop 1 lines)"


section \<open>Example transcripts\<close>

text \<open>
  No count and no length in the examples is a string or an array, so the conversion of
  strings to numbers is never consulted on them; the examples pass \<open>\<lambda>s. False\<close> for it.
\<close>



text \<open>A metadata line and six turns, user and assistant in alternation.\<close>

definition msg :: "string \<Rightarrow> string \<Rightarrow> line" where
  "msg t c = Doc (JObj [(''type'', JStr t), (''content'', JStr c)])"

definition ex7 :: "line list" where
  "ex7 = [Doc (JObj [(''type'', JStr ''summary'')]),
          msg ''user'' ''1'', msg ''assistant'' ''2'', msg ''user'' ''3'',
          msg ''assistant'' ''4'', msg ''user'' ''5'', msg ''assistant'' ''6'']"

text \<open>A metadata line and one user turn.\<close>

definition cex9 :: "line list" where
  "cex9 = [Doc (JObj [(''type'', JStr ''summary'')]), msg ''user'' ''1'']"

text \<open>The metadata line alone.\<close>

definition ex0 :: "line list" where
  "ex0 = [Doc (JObj [(''type'', JStr ''summary'')])]"

text \<open>A metadata line and ten user turns.\<close>

definition exTen :: "line list" where
  "exTen = Doc (JObj [(''type'', JStr ''summary'')]) # replicate 10 (msg ''user'' ''x'')"


text \<open>A metadata line and a user turn whose content is a list of content blocks.\<close>

definition cex6 :: "line list" where
  "cex6 = [Doc (JObj [(''type'', JStr ''summary'')]),
           Doc (JObj [(''type'', JStr ''user''),
                      (''message'',
                       JObj [(''role'', JStr ''user''),
                             (''content'',
                              JArr [JObj [(''type'', JStr ''text''),
                                          (''text'', JStr ''hi'')]])])])]"

text \<open>A metadata line, a user turn and an assistant turn, both plain text.\<close>

definition cex7 :: "line list" where
  "cex7 = [Doc (JObj [(''type'', JStr ''summary'')]),
           msg ''user'' ''hi'', msg ''assistant'' ''hello'']"




chapter \<open>Properties\<close>

section \<open>The keep and drop pass\<close>

lemma foldl_pruneStep:
  "\<forall>p\<in>set ps. fst p \<noteq> 0 \<Longrightarrow>
   foldl (pruneStep keep) r ps =
     r\<lparr>outLines := outLines r @
          map snd (filter (\<lambda>p. \<not> isMessageLine (snd p) \<or> fst p \<in> set keep) ps),
       kept := kept r + length (filter (\<lambda>p. isMessageLine (snd p) \<and> fst p \<in> set keep) ps),
       dropped := dropped r + length (filter (\<lambda>p. isMessageLine (snd p) \<and> fst p \<notin> set keep) ps)\<rparr>"
proof (induction ps arbitrary: r)
  case Nil
  then show ?case by simp
next
  case (Cons p ps)
  obtain i l where p: "p = (i, l)" by (cases p)
  from Cons.prems have i: "i \<noteq> 0" and rest: "\<forall>q\<in>set ps. fst q \<noteq> 0" by (auto simp: p)
  define r' where "r' = pruneStep keep r p"
  have r': "r' = (if isMessageLine l then
                   (if i \<in> set keep then r\<lparr>outLines := outLines r @ [l], kept := kept r + 1\<rparr>
                    else r\<lparr>dropped := dropped r + 1\<rparr>)
                  else r\<lparr>outLines := outLines r @ [l]\<rparr>)"
    by (simp add: r'_def pruneStep_def p i)
  have "foldl (pruneStep keep) r (p # ps) = foldl (pruneStep keep) r' ps"
    by (simp add: r'_def)
  also note Cons.IH [OF rest, of r']
  also have "r'\<lparr>outLines := outLines r' @
          map snd (filter (\<lambda>p. \<not> isMessageLine (snd p) \<or> fst p \<in> set keep) ps),
       kept := kept r' + length (filter (\<lambda>p. isMessageLine (snd p) \<and> fst p \<in> set keep) ps),
       dropped := dropped r' + length (filter (\<lambda>p. isMessageLine (snd p) \<and> fst p \<notin> set keep) ps)\<rparr>
     = r\<lparr>outLines := outLines r @
          map snd (filter (\<lambda>p. \<not> isMessageLine (snd p) \<or> fst p \<in> set keep) (p # ps)),
       kept := kept r + length (filter (\<lambda>p. isMessageLine (snd p) \<and> fst p \<in> set keep) (p # ps)),
       dropped := dropped r + length (filter (\<lambda>p. isMessageLine (snd p) \<and> fst p \<notin> set keep) (p # ps))\<rparr>"
    by (simp add: r' p)
  finally show ?case .
qed

lemma getProp_setProp_other:
  "k \<noteq> k' \<Longrightarrow> getProp (setProp obj k x) k' = getProp obj k'"
  by (cases obj) (simp_all add: update_conv')

lemma setProp_JNull: "(setProp obj k x = JNull) = (obj = JNull)"
  by (cases obj) simp_all

lemma hasMsgType_setProp:
  "k \<noteq> ''type'' \<Longrightarrow> hasMsgType (setProp obj k x) = hasMsgType obj"
  by (simp add: hasMsgType_def getProp_setProp_other)

lemma zeroNested_type:
  "zeroNested obj = Some obj' \<Longrightarrow> hasMsgType obj' = hasMsgType obj \<and> (obj' = JNull) = (obj = JNull)"
  by (auto simp: zeroNested_def hasMsgType_setProp setProp_JNull split: option.splits if_splits)

lemma zeroUsage_type:
  "zeroUsage obj = Some obj' \<Longrightarrow> hasMsgType obj' = hasMsgType obj \<and> (obj' = JNull) = (obj = JNull)"
  by (auto simp: zeroUsage_def hasMsgType_setProp setProp_JNull dest: zeroNested_type split: option.splits if_splits)

lemma isMessageLine_rewriteLine: "isMessageLine (rewriteLine l) = isMessageLine l"
  by (cases l) (auto dest: zeroUsage_type split: option.splits)


lemma applyCacheTokenHack_length: "length (applyCacheTokenHack N lines) = length lines"
  by (simp add: applyCacheTokenHack_def Let_def)

lemma applyCacheTokenHack_nth:
  "i < length lines \<Longrightarrow>
   applyCacheTokenHack N lines ! i =
     (if int i = lastNonZeroCacheLineIndex N lines then rewriteLine (lines ! i) else lines ! i)"
  by (simp add: applyCacheTokenHack_def Let_def nth_enumerate_eq)

lemma isMessageLine_processed:
  "i < length lines \<Longrightarrow>
   isMessageLine (applyCacheTokenHack N lines ! i) = isMessageLine (lines ! i)"
  by (simp add: applyCacheTokenHack_nth isMessageLine_rewriteLine)

lemma enumerate_as_map:
  "enumerate k xs = map (\<lambda>i. (i, xs ! (i - k))) [k..<k + length xs]"
  by (rule nth_equalityI) (simp_all add: nth_enumerate_eq)

lemma enumerate_from_one:
  "enumerate 0 (x # ys) = (0, x) # map (\<lambda>i. (i, (x # ys) ! i)) [1..<length (x # ys)]"
proof -
  have "enumerate 1 ys = map (\<lambda>i. (i, (x # ys) ! i)) [1..<length (x # ys)]"
    unfolding enumerate_as_map [of 1 ys]
    by (rule map_cong) (auto simp: nth_Cons')
  then show ?thesis by simp
qed

lemma filter_upt_cong:
  "(\<And>i. i < n \<Longrightarrow> A i = B i) \<Longrightarrow>
   filter (\<lambda>i. Q (A i) i) [k..<n] = filter (\<lambda>i. Q (B i) i) [k..<n]"
  by (rule filter_cong) auto

lemma pruneWithIndices_positions:
  "pruneWithIndices N lines keep s =
     \<lparr>outLines = take 1 lines @
        map (\<lambda>i. applyCacheTokenHack N lines ! i)
          (filter (\<lambda>i. isMessageLine (lines ! i) \<longrightarrow> i \<in> set keep) [1..<length lines]),
      kept = length (filter (\<lambda>i. isMessageLine (lines ! i) \<and> i \<in> set keep) [1..<length lines]),
      dropped = length (filter (\<lambda>i. isMessageLine (lines ! i) \<and> i \<notin> set keep) [1..<length lines]),
      strategy = s\<rparr>"
proof (cases lines)
  case Nil
  then show ?thesis
    by (simp add: pruneWithIndices_def applyCacheTokenHack_def Let_def)
next
  case (Cons x ys)
  define P where "P = applyCacheTokenHack N lines"
  have lenP: "length P = length lines" by (simp add: P_def applyCacheTokenHack_length)
  then obtain p0 ps where Pc: "P = p0 # ps" by (cases P) (auto simp: Cons)
  define qs where "qs = map (\<lambda>i. (i, P ! i)) [1..<length P]"
  have en: "enumerate 0 P = (0, p0) # qs"
    unfolding qs_def Pc by (rule enumerate_from_one)
  have pos: "\<forall>q\<in>set qs. fst q \<noteq> 0" by (auto simp: qs_def)
  define r0 :: PruneResult where "r0 = \<lparr>outLines = [x], kept = 0, dropped = 0, strategy = s\<rparr>"
  have "pruneWithIndices N lines keep s =
      foldl (pruneStep keep)
        \<lparr>outLines = (if 0 < length lines then [lines ! 0] else []), kept = 0, dropped = 0,
         strategy = s\<rparr> (enumerate 0 P)"
    by (simp add: pruneWithIndices_def Let_def P_def)
  also have "\<dots> = foldl (pruneStep keep) r0 ((0, p0) # qs)"
    unfolding en by (simp add: r0_def Cons)
  also have "\<dots> = foldl (pruneStep keep) r0 qs"
    by (simp add: pruneStep_def)
  also note foldl_pruneStep [OF pos, of keep r0]
  finally have main: "pruneWithIndices N lines keep s =
     r0\<lparr>outLines := outLines r0 @
          map snd (filter (\<lambda>p. \<not> isMessageLine (snd p) \<or> fst p \<in> set keep) qs),
       kept := kept r0 + length (filter (\<lambda>p. isMessageLine (snd p) \<and> fst p \<in> set keep) qs),
       dropped := dropped r0 + length (filter (\<lambda>p. isMessageLine (snd p) \<and> fst p \<notin> set keep) qs)\<rparr>" .
  have msg: "\<And>i. i < length lines \<Longrightarrow> isMessageLine (P ! i) = isMessageLine (lines ! i)"
    by (simp add: P_def isMessageLine_processed)
  have f1: "map snd (filter (\<lambda>p. \<not> isMessageLine (snd p) \<or> fst p \<in> set keep) qs)
      = map (\<lambda>i. P ! i) (filter (\<lambda>i. isMessageLine (lines ! i) \<longrightarrow> i \<in> set keep) [1..<length lines])"
    using filter_upt_cong [of "length lines" "\<lambda>i. isMessageLine (P ! i)" "\<lambda>i. isMessageLine (lines ! i)"
        "\<lambda>b i. b \<longrightarrow> i \<in> set keep" 1, OF msg]
    by (simp add: qs_def lenP filter_map o_def)
  have f2: "length (filter (\<lambda>p. isMessageLine (snd p) \<and> fst p \<in> set keep) qs)
      = length (filter (\<lambda>i. isMessageLine (lines ! i) \<and> i \<in> set keep) [1..<length lines])"
    using filter_upt_cong [of "length lines" "\<lambda>i. isMessageLine (P ! i)" "\<lambda>i. isMessageLine (lines ! i)"
        "\<lambda>b i. b \<and> i \<in> set keep" 1, OF msg]
    by (simp add: qs_def lenP filter_map o_def)
  have f3: "length (filter (\<lambda>p. isMessageLine (snd p) \<and> fst p \<notin> set keep) qs)
      = length (filter (\<lambda>i. isMessageLine (lines ! i) \<and> i \<notin> set keep) [1..<length lines])"
    using filter_upt_cong [of "length lines" "\<lambda>i. isMessageLine (P ! i)" "\<lambda>i. isMessageLine (lines ! i)"
        "\<lambda>b i. b \<and> i \<notin> set keep" 1, OF msg]
    by (simp add: qs_def lenP filter_map o_def)
  show ?thesis
    unfolding main f1 f2 f3 by (simp add: r0_def Cons P_def)
qed


lemma drop_as_map: "drop k xs = map (\<lambda>i. xs ! i) [k..<length xs]"
  by (rule nth_equalityI) simp_all

lemma length_filter_split:
  "length (filter (\<lambda>x. A x \<and> B x) xs) + length (filter (\<lambda>x. A x \<and> \<not> B x) xs)
     = length (filter A xs)"
  by (induction xs) auto

text \<open>
  Claim C8. For every line sequence and every selection, the kept count plus the dropped
  count of \<open>pruneWithIndices\<close> is the number of turns of the input: the lines after
  position 0 whose decoded type is user, assistant or system.
\<close>

theorem keep_drop_conservation:
  "kept (pruneWithIndices N lines indicesToKeep strat)
     + dropped (pruneWithIndices N lines indicesToKeep strat)
   = length (filter isMessageLine (drop 1 lines))"
proof -
  have "length (filter isMessageLine (drop 1 lines))
      = length (filter (\<lambda>i. isMessageLine (lines ! i)) [1..<length lines])"
    unfolding drop_as_map [of 1 lines] filter_map by (simp add: o_def)
  then show ?thesis
    by (simp add: pruneWithIndices_positions length_filter_split)
qed

section \<open>The cache fix-up\<close>

lemma lastIdx_snoc:
  "lastNonZeroCacheLineIndex N (xs @ [x]) =
     (if cachePositive N x then int (length xs) else lastNonZeroCacheLineIndex N xs)"
  by (simp add: lastNonZeroCacheLineIndex_def enumerate_append_eq)

lemma lastIdx_cases:
  "(lastNonZeroCacheLineIndex N ls = - 1 \<and> (\<forall>i<length ls. \<not> cachePositive N (ls ! i))) \<or>
   (\<exists>k<length ls. lastNonZeroCacheLineIndex N ls = int k \<and> cachePositive N (ls ! k) \<and>
        (\<forall>i<length ls. k < i \<longrightarrow> \<not> cachePositive N (ls ! i)))"
proof (induction ls rule: rev_induct)
  case Nil
  then show ?case by (simp add: lastNonZeroCacheLineIndex_def)
next
  case (snoc x xs)
  show ?case
  proof (cases "cachePositive N x")
    case True
    then show ?thesis
      by (auto simp: lastIdx_snoc nth_append intro!: exI [of _ "length xs"])
  next
    case False
    from snoc.IH show ?thesis
    proof
      assume "lastNonZeroCacheLineIndex N xs = - 1 \<and> (\<forall>i<length xs. \<not> cachePositive N (xs ! i))"
      with False show ?thesis
        by (auto simp: lastIdx_snoc nth_append less_Suc_eq)
    next
      assume "\<exists>k<length xs. lastNonZeroCacheLineIndex N xs = int k \<and> cachePositive N (xs ! k) \<and>
        (\<forall>i<length xs. k < i \<longrightarrow> \<not> cachePositive N (xs ! i))"
      then obtain k where k: "k < length xs" "lastNonZeroCacheLineIndex N xs = int k"
        "cachePositive N (xs ! k)" "\<forall>i<length xs. k < i \<longrightarrow> \<not> cachePositive N (xs ! i)"
        by blast
      have "\<forall>i<length (xs @ [x]). k < i \<longrightarrow> \<not> cachePositive N ((xs @ [x]) ! i)"
        using k(4) False by (auto simp: nth_append less_Suc_eq)
      with k False show ?thesis
        by (intro disjI2 exI [of _ k]) (auto simp: lastIdx_snoc nth_append)
    qed
  qed
qed

lemma lastIdx_last:
  assumes "k < length ls" "cachePositive N (ls ! k)"
    "\<forall>i<length ls. k < i \<longrightarrow> \<not> cachePositive N (ls ! i)"
  shows "lastNonZeroCacheLineIndex N ls = int k"
proof -
  from lastIdx_cases [of N ls] assms(1,2)
  obtain j where j: "j < length ls" "lastNonZeroCacheLineIndex N ls = int j"
    "cachePositive N (ls ! j)" "\<forall>i<length ls. j < i \<longrightarrow> \<not> cachePositive N (ls ! i)"
    by auto
  have "j = k"
  proof (rule ccontr)
    assume "j \<noteq> k"
    then consider "j < k" | "k < j" by linarith
    then show False
      using assms j by cases auto
  qed
  with j show ?thesis by simp
qed

lemma getProp_cache_obj:
  "getProp u ''cache_read_input_tokens'' = Some c \<Longrightarrow> \<exists>kvs. u = JObj kvs"
  by (cases u) (simp_all split: if_splits)

lemma getProp_Some_obj: "getProp obj k = Some v \<Longrightarrow> k \<noteq> ''length'' \<Longrightarrow> \<exists>kvs. obj = JObj kvs"
  by (cases obj) (simp_all split: if_splits)

text \<open>
  The notions of the statements against the functions of the program: the count of a
  line is what the program reads, and on a line that has a count the rewrite of the
  program puts zero in the place of the count.
\<close>

lemma optProp_getProp:
  "optProp v k = (case v of None \<Rightarrow> None | Some w \<Rightarrow> getProp w k)"
  by (cases "(v, k)" rule: optProp.cases) simp_all

lemma cacheCount_eq: "cacheCount l = cacheReadTokens l"
proof (cases l)
  case (Raw s)
  then show ?thesis by simp
next
  case (Doc obj)
  show ?thesis
  proof (cases "obj = JNull")
    case True
    then show ?thesis by (simp add: Doc countPath_def usagePath_def)
  next
    case False
    then show ?thesis
      by (auto simp: Doc countPath_def usagePath_def usageOf_def optProp_getProp
          split: option.splits)
  qed
qed

lemma positiveCount_eq: "positiveCount N l = cachePositive N l"
  by (simp add: positiveCount_def cachePositive_def cacheCount_eq)

lemma count_shape:
  assumes "cacheCount (Doc obj) = Some c"
  shows "(\<exists>okvs ukvs. obj = JObj okvs \<and> map_of okvs ''usage'' = Some (JObj ukvs) \<and>
            map_of ukvs ''cache_read_input_tokens'' = Some c \<and>
            countPath obj = [''usage'', ''cache_read_input_tokens'']) \<or>
         (\<exists>okvs mkvs ukvs. obj = JObj okvs \<and> \<not> truthyOpt (map_of okvs ''usage'') \<and>
            map_of okvs ''message'' = Some (JObj mkvs) \<and>
            map_of mkvs ''usage'' = Some (JObj ukvs) \<and>
            map_of ukvs ''cache_read_input_tokens'' = Some c \<and>
            countPath obj = [''message'', ''usage'', ''cache_read_input_tokens''])"
proof (cases "truthyOpt (getProp obj ''usage'')")
  case True
  then obtain u where u: "getProp obj ''usage'' = Some u" "truthy u"
    by (cases "getProp obj ''usage''") auto
  from assms True u have c: "getProp u ''cache_read_input_tokens'' = Some c"
    by (simp add: countPath_def usagePath_def split: option.splits)
  from getProp_Some_obj [OF u(1)] obtain okvs where o: "obj = JObj okvs" by auto
  from getProp_cache_obj [OF c] obtain ukvs where uo: "u = JObj ukvs" ..
  from True u c o uo show ?thesis
    by (intro disjI1) (simp add: countPath_def usagePath_def)
next
  case False
  with assms obtain m u where m: "getProp obj ''message'' = Some m"
    "getProp m ''usage'' = Some u" "getProp u ''cache_read_input_tokens'' = Some c"
    by (auto simp: countPath_def usagePath_def split: option.splits)
  from getProp_Some_obj [OF m(1)] obtain okvs where o: "obj = JObj okvs" by auto
  from getProp_Some_obj [OF m(2)] obtain mkvs where mo: "m = JObj mkvs" by auto
  from getProp_cache_obj [OF m(3)] obtain ukvs where uo: "u = JObj ukvs" ..
  from False m o mo uo show ?thesis
    by (intro disjI2) (simp add: countPath_def usagePath_def)
qed



lemma rewriteLine_withCount:
  assumes "cacheCount l = Some c"
  shows "rewriteLine l = withCount (JNum 0) l"
proof -
  from assms obtain obj where l: "l = Doc obj" by (cases l) simp_all
  from count_shape [OF assms [unfolded l]] show ?thesis
  proof (elim disjE exE conjE)
    fix okvs ukvs
    assume "obj = JObj okvs" "map_of okvs ''usage'' = Some (JObj ukvs)"
      "map_of ukvs ''cache_read_input_tokens'' = Some c"
      "countPath obj = [''usage'', ''cache_read_input_tokens'']"
    then show ?thesis
      by (simp add: l zeroUsage_def)
  next
    fix okvs mkvs ukvs
    assume a: "obj = JObj okvs" "\<not> truthyOpt (map_of okvs ''usage'')"
      "map_of okvs ''message'' = Some (JObj mkvs)" "map_of mkvs ''usage'' = Some (JObj ukvs)"
      "map_of ukvs ''cache_read_input_tokens'' = Some c"
      "countPath obj = [''message'', ''usage'', ''cache_read_input_tokens'']"
    then have "zeroNested obj =
        Some (setProp obj ''message''
               (setProp (JObj mkvs) ''usage''
                 (setProp (JObj ukvs) ''cache_read_input_tokens'' (JNum 0))))"
      by (simp add: zeroNested_def)
    moreover from a have "zeroUsage obj = zeroNested obj"
      by (cases "map_of okvs ''usage''") (simp_all add: zeroUsage_def)
    ultimately show ?thesis using a
      by (simp add: l)
  qed
qed

lemma list_ex_drop:
  "list_ex P (drop (Suc k) xs) = (\<exists>i<length xs. k < i \<and> P (xs ! i))"
  unfolding drop_as_map [of "Suc k" xs] by (auto simp: list_ex_iff)

lemma isTarget_lastIdx:
  "isTarget N lines i = (lastNonZeroCacheLineIndex N lines = int i \<and> i < length lines)"
proof
  assume "isTarget N lines i"
  then have "i < length lines" "cachePositive N (lines ! i)"
    "\<forall>j<length lines. i < j \<longrightarrow> \<not> cachePositive N (lines ! j)"
    by (auto simp: isTarget_def list_ex_drop positiveCount_eq)
  then show "lastNonZeroCacheLineIndex N lines = int i \<and> i < length lines"
    using lastIdx_last by blast
next
  assume a: "lastNonZeroCacheLineIndex N lines = int i \<and> i < length lines"
  from lastIdx_cases [of N lines] a
  have "cachePositive N (lines ! i) \<and>
        (\<forall>j<length lines. i < j \<longrightarrow> \<not> cachePositive N (lines ! j))"
    by auto
  with a show "isTarget N lines i"
    by (auto simp: isTarget_def list_ex_drop positiveCount_eq)
qed

lemma isTarget_count:
  "isTarget N lines i \<Longrightarrow> \<exists>c. cacheCount (lines ! i) = Some c"
  by (auto simp: isTarget_def positiveCount_def split: option.splits)

lemma processed_nth:
  assumes "i < length lines"
  shows "applyCacheTokenHack N lines ! i =
           (if isTarget N lines i then withCount (JNum 0) (lines ! i) else lines ! i)"
proof (cases "isTarget N lines i")
  case True
  from isTarget_count [OF True] obtain c where "cacheCount (lines ! i) = Some c" ..
  from rewriteLine_withCount [OF this] True assms show ?thesis
    by (simp add: applyCacheTokenHack_nth isTarget_lastIdx)
next
  case False
  with assms show ?thesis
    by (simp add: applyCacheTokenHack_nth isTarget_lastIdx)
qed










section \<open>Lines that are no turns\<close>







section \<open>Legacy mode\<close>

lemma scanMessages_snoc:
  "scanMessages (xs @ [x]) = scanStep (scanMessages xs) (length xs, x)"
  by (simp add: scanMessages_def enumerate_append_eq)

lemma upt_filter_snoc:
  "filter (\<lambda>i. Q ((xs @ [x]) ! i)) [1..<length (xs @ [x])] =
     filter (\<lambda>i. Q (xs ! i)) [1..<length xs] @ (if 1 \<le> length xs \<and> Q x then [length xs] else [])"
proof -
  have "filter (\<lambda>i. Q ((xs @ [x]) ! i)) [1..<length xs] = filter (\<lambda>i. Q (xs ! i)) [1..<length xs]"
    by (rule filter_cong) (auto simp: nth_append)
  then show ?thesis by (cases xs) auto
qed

lemma scanMessages_positions:
  "scanMessages lines = (turnPositions lines, assistantPositions lines)"
proof (induction lines rule: rev_induct)
  case Nil
  then show ?case by (simp add: scanMessages_def turnPositions_def assistantPositions_def)
next
  case (snoc x xs)
  show ?case
    unfolding scanMessages_snoc snoc.IH turnPositions_def assistantPositions_def upt_filter_snoc
    by (cases x; cases xs) (auto simp: scanStep_def)
qed


lemma foldl_legacyStep:
  "\<forall>p\<in>set ps. fst p \<noteq> 0 \<Longrightarrow>
   foldl (legacyStep cf) r ps =
     r\<lparr>outLines := outLines r @
          map snd (filter (\<lambda>p. \<not> isMessageLine (snd p) \<or> geCut (fst p) cf) ps),
       kept := kept r + length (filter (\<lambda>p. isMessageLine (snd p) \<and> geCut (fst p) cf) ps),
       dropped := dropped r + length (filter (\<lambda>p. isMessageLine (snd p) \<and> \<not> geCut (fst p) cf) ps)\<rparr>"
proof (induction ps arbitrary: r)
  case Nil
  then show ?case by simp
next
  case (Cons p ps)
  obtain i l where p: "p = (i, l)" by (cases p)
  from Cons.prems have i: "i \<noteq> 0" and rest: "\<forall>q\<in>set ps. fst q \<noteq> 0" by (auto simp: p)
  define r' where "r' = legacyStep cf r p"
  have r': "r' = (if isMessageLine l then
                   (if geCut i cf then r\<lparr>outLines := outLines r @ [l], kept := kept r + 1\<rparr>
                    else r\<lparr>dropped := dropped r + 1\<rparr>)
                  else r\<lparr>outLines := outLines r @ [l]\<rparr>)"
    by (simp add: r'_def legacyStep_def p i)
  have "foldl (legacyStep cf) r (p # ps) = foldl (legacyStep cf) r' ps"
    by (simp add: r'_def)
  also note Cons.IH [OF rest, of r']
  also have "r'\<lparr>outLines := outLines r' @
          map snd (filter (\<lambda>p. \<not> isMessageLine (snd p) \<or> geCut (fst p) cf) ps),
       kept := kept r' + length (filter (\<lambda>p. isMessageLine (snd p) \<and> geCut (fst p) cf) ps),
       dropped := dropped r' + length (filter (\<lambda>p. isMessageLine (snd p) \<and> \<not> geCut (fst p) cf) ps)\<rparr>
     = r\<lparr>outLines := outLines r @
          map snd (filter (\<lambda>p. \<not> isMessageLine (snd p) \<or> geCut (fst p) cf) (p # ps)),
       kept := kept r + length (filter (\<lambda>p. isMessageLine (snd p) \<and> geCut (fst p) cf) (p # ps)),
       dropped := dropped r + length (filter (\<lambda>p. isMessageLine (snd p) \<and> \<not> geCut (fst p) cf) (p # ps))\<rparr>"
    by (simp add: r' p)
  finally show ?case .
qed

lemma zeroNested_legacy:
  "(case zeroNestedLegacy obj of None \<Rightarrow> Doc obj | Some obj' \<Rightarrow> Doc obj') =
   (case zeroNested obj of None \<Rightarrow> Doc obj | Some obj' \<Rightarrow> Doc obj')"
proof (cases "getProp obj ''message''")
  case None
  then show ?thesis by (simp add: zeroNestedLegacy_def zeroNested_def)
next
  case (Some m)
  show ?thesis
  proof (cases "optProp (Some m) ''usage''")
    case None
    with Some show ?thesis by (simp add: zeroNestedLegacy_def zeroNested_def)
  next
    case (Some u)
    with \<open>getProp obj ''message'' = Some m\<close> show ?thesis
      by (cases u rule: writeZero.cases) (simp_all add: zeroNestedLegacy_def zeroNested_def)
  qed
qed

lemma rewriteLineLegacy_eq: "rewriteLineLegacy l = rewriteLine l"
proof (cases l)
  case (Raw s)
  then show ?thesis by simp
next
  case (Doc obj)
  show ?thesis
  proof (cases "getProp obj ''usage''")
    case None
    then show ?thesis
      using zeroNested_legacy [of obj] by (simp add: Doc zeroUsageLegacy_def zeroUsage_def)
  next
    case (Some u)
    then show ?thesis
      using zeroNested_legacy [of obj] by (simp add: Doc zeroUsageLegacy_def zeroUsage_def)
  qed
qed

lemma legacy_processed:
  "map (\<lambda>(i, l). if int i = lastNonZeroCacheLineIndex N lines then rewriteLineLegacy l else l)
     (enumerate 0 lines) = applyCacheTokenHack N lines"
  unfolding applyCacheTokenHack_def Let_def rewriteLineLegacy_eq ..

lemma pruneSessionLines_positions:
  assumes cf: "cf = (if max 0 keepN < int (length (assistantPositions lines))
             then arrayAt (assistantPositions lines)
                    (int (length (assistantPositions lines)) - max 0 keepN)
             else Some 0)"
  shows "pruneSessionLines N lines keepN =
     \<lparr>outLines = take 1 lines @
        map (\<lambda>i. applyCacheTokenHack N lines ! i)
          (filter (\<lambda>i. isMessageLine (lines ! i) \<longrightarrow> geCut i cf) [1..<length lines]),
      kept = length (filter (\<lambda>i. isMessageLine (lines ! i) \<and> geCut i cf) [1..<length lines]),
      dropped = length (filter (\<lambda>i. isMessageLine (lines ! i) \<and> \<not> geCut i cf) [1..<length lines]),
      assistantCount = length (assistantPositions lines)\<rparr>"
proof -
  define P where "P = applyCacheTokenHack N lines"
  define c where "c = length (assistantPositions lines)"
  define r0 :: LegacyResult where
    "r0 = \<lparr>outLines = (if 0 < length lines then [lines ! 0] else []), kept = 0, dropped = 0,
           assistantCount = c\<rparr>"
  have start: "pruneSessionLines N lines keepN = foldl (legacyStep cf) r0 (enumerate 0 P)"
    by (simp add: pruneSessionLines_def scanMessages_positions Let_def legacy_processed
        P_def r0_def cf c_def)
  have lenP: "length P = length lines" by (simp add: P_def applyCacheTokenHack_length)
  show ?thesis
  proof (cases lines)
    case Nil
    then have "P = []" using lenP by simp
    with start Nil show ?thesis by (simp add: r0_def c_def)
  next
    case (Cons x ys)
    then obtain p0 ps where Pc: "P = p0 # ps" using lenP by (cases P) auto
    define qs where "qs = map (\<lambda>i. (i, P ! i)) [1..<length P]"
    have en: "enumerate 0 P = (0, p0) # qs"
      unfolding qs_def Pc by (rule enumerate_from_one)
    have pos: "\<forall>q\<in>set qs. fst q \<noteq> 0" by (auto simp: qs_def)
    have "foldl (legacyStep cf) r0 (enumerate 0 P) = foldl (legacyStep cf) r0 qs"
      unfolding en by (simp add: legacyStep_def)
    also note foldl_legacyStep [OF pos, of cf r0]
    finally have main: "pruneSessionLines N lines keepN =
      r0\<lparr>outLines := outLines r0 @
          map snd (filter (\<lambda>p. \<not> isMessageLine (snd p) \<or> geCut (fst p) cf) qs),
       kept := kept r0 + length (filter (\<lambda>p. isMessageLine (snd p) \<and> geCut (fst p) cf) qs),
       dropped := dropped r0 + length (filter (\<lambda>p. isMessageLine (snd p) \<and> \<not> geCut (fst p) cf) qs)\<rparr>"
      unfolding start .
    have msg: "\<And>i. i < length lines \<Longrightarrow> isMessageLine (P ! i) = isMessageLine (lines ! i)"
      by (simp add: P_def isMessageLine_processed)
    have f1: "map snd (filter (\<lambda>p. \<not> isMessageLine (snd p) \<or> geCut (fst p) cf) qs)
        = map (\<lambda>i. P ! i) (filter (\<lambda>i. isMessageLine (lines ! i) \<longrightarrow> geCut i cf) [1..<length lines])"
      using filter_upt_cong [of "length lines" "\<lambda>i. isMessageLine (P ! i)" "\<lambda>i. isMessageLine (lines ! i)"
          "\<lambda>b i. b \<longrightarrow> geCut i cf" 1, OF msg]
      by (simp add: qs_def lenP filter_map o_def)
    have f2: "length (filter (\<lambda>p. isMessageLine (snd p) \<and> geCut (fst p) cf) qs)
        = length (filter (\<lambda>i. isMessageLine (lines ! i) \<and> geCut i cf) [1..<length lines])"
      using filter_upt_cong [of "length lines" "\<lambda>i. isMessageLine (P ! i)" "\<lambda>i. isMessageLine (lines ! i)"
          "\<lambda>b i. b \<and> geCut i cf" 1, OF msg]
      by (simp add: qs_def lenP filter_map o_def)
    have f3: "length (filter (\<lambda>p. isMessageLine (snd p) \<and> \<not> geCut (fst p) cf) qs)
        = length (filter (\<lambda>i. isMessageLine (lines ! i) \<and> \<not> geCut i cf) [1..<length lines])"
      using filter_upt_cong [of "length lines" "\<lambda>i. isMessageLine (P ! i)" "\<lambda>i. isMessageLine (lines ! i)"
          "\<lambda>b i. b \<and> \<not> geCut i cf" 1, OF msg]
      by (simp add: qs_def lenP filter_map o_def)
    show ?thesis
      unfolding main f1 f2 f3 by (simp add: r0_def Cons P_def c_def)
  qed
qed


text \<open>
  The function \<open>pruneSessionLines\<close> of index.ts applies the same fix-up to what it
  writes.
\<close>

lemma legacy_output_fixup:
  assumes cf: "cf = (if max 0 keepN < int (length (assistantPositions lines))
             then arrayAt (assistantPositions lines)
                    (int (length (assistantPositions lines)) - max 0 keepN)
             else Some 0)"
  shows "outLines (pruneSessionLines N lines keepN) =
     take 1 lines @
     map (\<lambda>i. if isTarget N lines i then withCount (JNum 0) (lines ! i) else lines ! i)
       (filter (\<lambda>i. isMessageLine (lines ! i) \<longrightarrow> geCut i cf) [1..<length lines])"
proof -
  have "map (\<lambda>i. applyCacheTokenHack N lines ! i)
          (filter (\<lambda>i. isMessageLine (lines ! i) \<longrightarrow> geCut i cf) [1..<length lines])
      = map (\<lambda>i. if isTarget N lines i then withCount (JNum 0) (lines ! i) else lines ! i)
          (filter (\<lambda>i. isMessageLine (lines ! i) \<longrightarrow> geCut i cf) [1..<length lines])"
    by (rule map_cong) (auto simp: processed_nth)
  then show ?thesis by (simp add: pruneSessionLines_positions [OF cf])
qed

text \<open>
  Claim C4, amended. For every line sequence and keep-count \<open>N\<close>, the function
  \<open>pruneSessionLines\<close> reports as \<open>assistantCount\<close> the number of assistant turns.
  When \<open>1 \<le> N\<close> and more than \<open>N\<close> assistant turns exist, the cutoff is the
  global position of the assistant turn number \<open>count - N + 1\<close> counted from 1 at the
  start (the \<open>N\<close>-th from the end): every turn at or after it is kept, every earlier
  turn is dropped, and the lines that are no turns stay. When no more than
  \<open>max 0 N\<close> assistant turns exist, all turns are kept.
\<close>

theorem legacy_cutoff:
  "assistantCount (pruneSessionLines N lines keepN) = length (assistantPositions lines)
   \<and> (1 \<le> keepN \<and> keepN < int (length (assistantPositions lines)) \<longrightarrow>
        outLines (pruneSessionLines N lines keepN) =
          take 1 lines @
          map (\<lambda>i. applyCacheTokenHack N lines ! i)
            (filter (\<lambda>i. isMessageLine (lines ! i) \<longrightarrow> cutoffPosition lines keepN \<le> i)
               [1..<length lines])
        \<and> kept (pruneSessionLines N lines keepN) =
            length (filter (\<lambda>i. cutoffPosition lines keepN \<le> i) (turnPositions lines))
        \<and> dropped (pruneSessionLines N lines keepN) =
            length (filter (\<lambda>i. i < cutoffPosition lines keepN) (turnPositions lines)))
   \<and> (int (length (assistantPositions lines)) \<le> max 0 keepN \<longrightarrow>
        outLines (pruneSessionLines N lines keepN) =
          take 1 lines @ drop 1 (applyCacheTokenHack N lines)
        \<and> kept (pruneSessionLines N lines keepN) = length (turnPositions lines)
        \<and> dropped (pruneSessionLines N lines keepN) = 0)"
proof (intro conjI impI)
  show "assistantCount (pruneSessionLines N lines keepN) = length (assistantPositions lines)"
    by (simp add: pruneSessionLines_positions [OF refl])
next
  assume a: "1 \<le> keepN \<and> keepN < int (length (assistantPositions lines))"
  let ?c = "cutoffPosition lines keepN"
  have "nat (int (length (assistantPositions lines)) - keepN)
      = length (assistantPositions lines) - nat keepN"
    using a by linarith
  with a have cf: "Some ?c =
      (if max 0 keepN < int (length (assistantPositions lines))
       then arrayAt (assistantPositions lines)
              (int (length (assistantPositions lines)) - max 0 keepN)
       else Some 0)"
    by (simp add: arrayAt_def cutoffPosition_def max_def)
  note r = pruneSessionLines_positions [OF cf, of N]
  show "outLines (pruneSessionLines N lines keepN) =
          take 1 lines @
          map (\<lambda>i. applyCacheTokenHack N lines ! i)
            (filter (\<lambda>i. isMessageLine (lines ! i) \<longrightarrow> ?c \<le> i) [1..<length lines])"
    by (simp add: r)
  show "kept (pruneSessionLines N lines keepN) = length (filter (\<lambda>i. ?c \<le> i) (turnPositions lines))"
    by (simp add: r turnPositions_def)
  show "dropped (pruneSessionLines N lines keepN) = length (filter (\<lambda>i. i < ?c) (turnPositions lines))"
    by (simp add: r turnPositions_def not_le)
next
  assume a: "int (length (assistantPositions lines)) \<le> max 0 keepN"
  then have "\<not> max 0 keepN < int (length (assistantPositions lines))"
    by linarith
  then have cf: "Some 0 =
      (if max 0 keepN < int (length (assistantPositions lines))
       then arrayAt (assistantPositions lines)
              (int (length (assistantPositions lines)) - max 0 keepN)
       else Some 0)"
    by (simp only: if_False)
  note r = pruneSessionLines_positions [OF cf, of N]
  have "map (\<lambda>i. applyCacheTokenHack N lines ! i) [1..<length lines]
      = drop 1 (applyCacheTokenHack N lines)"
    using drop_as_map [of 1 "applyCacheTokenHack N lines"]
    by (simp add: applyCacheTokenHack_length)
  then show "outLines (pruneSessionLines N lines keepN) =
          take 1 lines @ drop 1 (applyCacheTokenHack N lines)"
    by (simp add: r)
  show "kept (pruneSessionLines N lines keepN) = length (turnPositions lines)"
    by (simp add: r turnPositions_def)
  show "dropped (pruneSessionLines N lines keepN) = 0"
    by (simp add: r)
qed

lemmas legacy_eval = pruneSessionLines_def SmartPruner_pruneSessionLines_def scanMessages_def
  scanStep_def legacyStep_def isAssistant_def arrayAt_def msg_def

lemma ex7_positions:
  "turnPositions ex7 = [1, 2, 3, 4, 5, 6]" "assistantPositions ex7 = [2, 4, 6]"
  by (simp_all add: turnPositions_def assistantPositions_def ex7_def msg_def upt_rec
      hasMsgType_def MSG_TYPES_def isAssistant_def)

text \<open>
  Claim C4 as stated fails on six alternating turns with \<open>N = 2\<close>: the assistant turns
  are at 2, 4 and 6, and the code keeps the three turns from position 4 on. The turn
  number \<open>count - N = 1\<close> of the claim is at position 2, from where five turns follow.
\<close>

theorem legacy_cutoff_counterexample:
  "assistantPositions ex7 = [2, 4, 6] \<and>
   kept (pruneSessionLines (\<lambda>s. False) ex7 2) = 3 \<and>
   dropped (pruneSessionLines (\<lambda>s. False) ex7 2) = 3 \<and>
   length (filter (\<lambda>i. assistantPositions ex7 ! (length (assistantPositions ex7) - 2 - 1) \<le> i)
             (turnPositions ex7)) = 5"
  by code_simp

text \<open>The witness: \<open>ex7\<close> with \<open>N = 2\<close> (cutoff at position 4) and with
  \<open>N = 3\<close> (all six turns kept).\<close>

theorem legacy_cutoff_witness:
  "cutoffPosition ex7 2 = 4
   \<and> kept (pruneSessionLines (\<lambda>s. False) ex7 2) = 3
   \<and> dropped (pruneSessionLines (\<lambda>s. False) ex7 2) = 3
   \<and> kept (pruneSessionLines (\<lambda>s. False) ex7 3) = 6
   \<and> dropped (pruneSessionLines (\<lambda>s. False) ex7 3) = 0
   \<and> assistantCount (pruneSessionLines (\<lambda>s. False) ex7 2) = 3"
proof -
  have c: "cutoffPosition ex7 2 = 4"
    by (simp add: cutoffPosition_def ex7_positions)
  from legacy_cutoff [of "\<lambda>s. False" ex7 2] legacy_cutoff [of "\<lambda>s. False" ex7 3] c
  show ?thesis
    by (simp add: ex7_positions)
qed

text \<open>
  Claim C9. The two legacy functions differ on a negative keep-count when no assistant
  turn exists: \<open>pruneSessionLines\<close> clamps the count to 0 and keeps the user turn,
  \<open>SmartPruner_pruneSessionLines\<close> reads beyond the empty list of assistant positions
  and drops it.
\<close>

theorem legacy_functions_differ:
  "kept (pruneSessionLines (\<lambda>s. False) cex9 (- 1)) = 1 \<and>
   dropped (pruneSessionLines (\<lambda>s. False) cex9 (- 1)) = 0 \<and>
   kept (SmartPruner_pruneSessionLines (\<lambda>s. False) cex9 (- 1)) = 0 \<and>
   dropped (SmartPruner_pruneSessionLines (\<lambda>s. False) cex9 (- 1)) = 1"
  by code_simp


text \<open>For a keep-count that is not negative the two functions agree in all four fields.\<close>

lemma in_turnPositions:
  "i \<in> set (turnPositions lines) \<longleftrightarrow> 1 \<le> i \<and> i < length lines \<and> isMessageLine (lines ! i)"
  by (auto simp: turnPositions_def)

lemma legacy_functions_agree:
  assumes "0 \<le> keepN"
  shows "SmartPruner_pruneSessionLines N lines keepN = pruneSessionLines N lines keepN"
proof -
  define cf where "cf = (if max 0 keepN < int (length (assistantPositions lines))
             then arrayAt (assistantPositions lines)
                    (int (length (assistantPositions lines)) - max 0 keepN)
             else Some 0)"
  define keep where "keep =
     (if keepN < int (length (assistantPositions lines)) then
        filter (\<lambda>idx. geCut idx (arrayAt (assistantPositions lines)
                  (int (length (assistantPositions lines)) - keepN))) (turnPositions lines)
      else turnPositions lines)"
  have m: "max 0 keepN = keepN" using assms by simp
  have mem: "\<And>i. i \<in> set [1..<length lines] \<Longrightarrow> isMessageLine (lines ! i) \<Longrightarrow>
      (i \<in> set keep) = geCut i cf"
    by (auto simp: keep_def cf_def m in_turnPositions)
  have e1: "filter (\<lambda>i. isMessageLine (lines ! i) \<longrightarrow> i \<in> set keep) [1..<length lines]
      = filter (\<lambda>i. isMessageLine (lines ! i) \<longrightarrow> geCut i cf) [1..<length lines]"
    by (rule filter_cong) (use mem in auto)
  have e2: "filter (\<lambda>i. isMessageLine (lines ! i) \<and> i \<in> set keep) [1..<length lines]
      = filter (\<lambda>i. isMessageLine (lines ! i) \<and> geCut i cf) [1..<length lines]"
    by (rule filter_cong) (use mem in auto)
  have e3: "filter (\<lambda>i. isMessageLine (lines ! i) \<and> i \<notin> set keep) [1..<length lines]
      = filter (\<lambda>i. isMessageLine (lines ! i) \<and> \<not> geCut i cf) [1..<length lines]"
    by (rule filter_cong) (use mem in auto)
  have "SmartPruner_pruneSessionLines N lines keepN =
      \<lparr>outLines = outLines (pruneWithIndices N lines keep
           (''Keep last '' @ showInt keepN @ '' assistant messages'')),
       kept = kept (pruneWithIndices N lines keep
           (''Keep last '' @ showInt keepN @ '' assistant messages'')),
       dropped = dropped (pruneWithIndices N lines keep
           (''Keep last '' @ showInt keepN @ '' assistant messages'')),
       assistantCount = length (assistantPositions lines)\<rparr>"
    unfolding SmartPruner_pruneSessionLines_def scanMessages_positions Let_def keep_def by simp
  also have "\<dots> = pruneSessionLines N lines keepN"
    unfolding pruneSessionLines_positions [OF cf_def, of N] pruneWithIndices_positions
    using e1 e2 e3 by simp
  finally show ?thesis .
qed

section \<open>Selections and the analyzer at concrete sessions\<close>

text \<open>
  Claim C5. On ten turns the recent-only strategy of \<open>buildStrategies\<close> keeps the last
  four positions (it starts at \<open>floor (0.6 * 10) = 6\<close>), and the non-interactive branch
  of \<open>main\<close> keeps the last six (it starts at \<open>floor (0.4 * 10) = 4\<close>).
\<close>

theorem auto_mode_keeps_more_than_recent:
  "length (messageIndices (analyze (\<lambda>s. False) exTen)) = 10 \<and>
   recentIndices (analyze (\<lambda>s. False) exTen) = [7, 8, 9, 10] \<and>
   autoIndices (analyze (\<lambda>s. False) exTen) = [5, 6, 7, 8, 9, 10]"
  by code_simp

text \<open>
  Claim C6. A user turn whose content is a list of content blocks is a turn, but
  \<open>detectError\<close> throws on it and it gets no detail record: the session has one turn and
  \<open>findKeyMessages\<close> returns no position.
\<close>

theorem key_messages_skip_block_content:
  "messageIndices (analyze (\<lambda>s. False) cex6) = [1] \<and>
   messageDetails (analyze (\<lambda>s. False) cex6) = [] \<and>
   findKeyMessages (analyze (\<lambda>s. False) cex6) = []"
  by code_simp

text \<open>
  Claim C7. In a session of two plain text turns the only window starts at the first
  turn, and \<open>classifyPhase\<close> labels it as discussion: \<open>messageIndices\<close> has no entry
  at index 5, and the comparison with \<^verbatim>\<open>undefined\<close> is false.
\<close>

theorem short_session_is_discussion:
  "length (messageIndices (analyze (\<lambda>s. False) cex7)) = 2 \<and>
   detectWorkPhases (analyze (\<lambda>s. False) cex7) =
     Some [\<lparr>start = 0, endIdx = 1, description = ''Discussion and planning'',
            messageCount = 2,
            characteristics = \<lparr>codeBlocks = 0, errors = 0, fileEdits = 0, toolUses = 0\<rparr>\<rparr>]"
  by code_simp


text \<open>
  Claim C10 as stated fails on the session without turns: the bookends selection is the
  whole (empty) list of positions, and the percentage is \<open>0 / 0\<close>, not 0.
\<close>

theorem bookends_empty_session_counterexample:
  "length (messageIndices (analyze (\<lambda>s. False) ex0)) < 4 \<and>
   bookendIndices (analyze (\<lambda>s. False) ex0) = messageIndices (analyze (\<lambda>s. False) ex0) \<and>
   bookendFreed (analyze (\<lambda>s. False) ex0) = None \<and>
   bookendFreed (analyze (\<lambda>s. False) ex0) \<noteq> Some 0"
  by code_simp

text \<open>
  Claim C10, amended. In every session with fewer than 4 turns the bookends selection
  is the whole list of turn positions, because \<^verbatim>\<open>slice(-0)\<close> is the whole list; when
  the session has at least one turn, the selection frees 0 percent.
\<close>

theorem bookends_small_session:
  "length (messageIndices a) < 4 \<longrightarrow>
     bookendIndices a = messageIndices a \<and>
     (0 < length (messageIndices a) \<longrightarrow> bookendFreed a = Some 0)"
proof (intro impI)
  assume small: "length (messageIndices a) < 4"
  then have l: "(length (messageIndices a) * 3) div 10 = 0" "length (messageIndices a) div 10 = 0"
    by simp_all
  have b: "bookendIndices a = messageIndices a"
    by (simp add: bookendIndices_def Let_def l slice_def sliceFrom_def)
  show "bookendIndices a = messageIndices a \<and>
     (0 < length (messageIndices a) \<longrightarrow> bookendFreed a = Some 0)"
    by (simp add: b bookendFreed_def percentFreed_def floor_eq_iff)
qed

text \<open>
  The witness: a session of two turns.
\<close>

theorem bookends_small_session_witness:
  "length (messageIndices (analyze (\<lambda>s. False) cex7)) = 2 \<and>
   bookendIndices (analyze (\<lambda>s. False) cex7) = [1, 2] \<and>
   bookendFreed (analyze (\<lambda>s. False) cex7) = Some 0"
proof -
  have m: "messageIndices (analyze (\<lambda>s. False) cex7) = [1, 2]" by code_simp
  from bookends_small_session [of "analyze (\<lambda>s. False) cex7"] m
  show ?thesis by simp
qed

section \<open>The analysis pass and the work phases\<close>

lemma analyze_snoc:
  "analyze N (xs @ [x]) = analyzeStep N (analyze N xs) (length xs, x)"
  by (simp add: analyze_def enumerate_append_eq)


lemma analyzeStep_details:
  "map index (messageDetails (analyzeStep N a (i, l))) =
     map index (messageDetails a) @
       (if 1 \<le> i \<and> isMessageLine l \<and> textContent l then [i] else [])"
proof (cases l)
  case (Raw s)
  then show ?thesis by (simp add: analyzeStep_def)
next
  case (Doc obj)
  show ?thesis
    by (cases "contentOf obj")
      (auto simp: Doc analyzeStep_def Let_def detectError_def)
qed


lemma analyze_details:
  "map index (messageDetails (analyze N lines)) =
     filter (\<lambda>i. isMessageLine (lines ! i) \<and> textContent (lines ! i)) [1..<length lines]"
proof (induction lines rule: rev_induct)
  case Nil
  then show ?case by (simp add: analyze_def)
next
  case (snoc x xs)
  show ?case
    unfolding analyze_snoc analyzeStep_details snoc.IH
      upt_filter_snoc [of "\<lambda>l. isMessageLine l \<and> textContent l"]
    by simp
qed

lemma analyze_details_all:
  assumes "allTurnsText lines"
  shows "map index (messageDetails (analyze N lines)) = turnPositions lines"
proof -
  have "\<And>i. i \<in> set [1..<length lines] \<Longrightarrow> isMessageLine (lines ! i) \<Longrightarrow> textContent (lines ! i)"
  proof -
    fix i assume i: "i \<in> set [1..<length lines]" and m: "isMessageLine (lines ! i)"
    then have "lines ! i \<in> set (drop 1 lines)"
      by (auto simp: in_set_conv_nth intro!: exI [of _ "i - 1"])
    with assms m show "textContent (lines ! i)"
      by (auto simp: allTurnsText_def list_all_iff)
  qed
  then have "filter (\<lambda>i. isMessageLine (lines ! i) \<and> textContent (lines ! i)) [1..<length lines]
      = filter (\<lambda>i. isMessageLine (lines ! i)) [1..<length lines]"
    by (intro filter_cong) auto
  then show ?thesis by (simp add: analyze_details turnPositions_def)
qed

lemma turnPositions_distinct: "distinct (turnPositions lines)"
  by (simp add: turnPositions_def)

















text \<open>
  The key messages: as many as there are detail records, up to the larger of 10 and a
  fifth of them, in ascending order without repetition. In a session whose turns are all
  text the detail records are the turns.
\<close>

lemma findKeyMessages_length:
  "length (findKeyMessages a) =
     min (length (messageDetails a)) (max 10 (length (messageDetails a) div 5))"
  by (simp add: findKeyMessages_def Let_def min.commute)

lemma findKeyMessages_sorted: "sorted (findKeyMessages a)"
  by (simp add: findKeyMessages_def Let_def)

lemma distinct_fst_sort_key:
  assumes "distinct (map fst xs)"
  shows "distinct (map fst (take k (sort_key f xs)))"
proof -
  from assms have "distinct xs" "inj_on fst (set xs)"
    by (simp_all add: distinct_map)
  then have "distinct (map fst (sort_key f xs))"
    by (simp add: distinct_map)
  then show ?thesis
    by (simp add: take_map [symmetric] distinct_take)
qed

lemma findKeyMessages_distinct:
  assumes "distinct (map index (messageDetails a))"
  shows "distinct (findKeyMessages a)"
proof -
  have "map fst (map (\<lambda>m. (index m, scoreMessage a m)) (messageDetails a))
      = map index (messageDetails a)"
    by (simp add: o_def)
  with assms have "distinct (map fst (map (\<lambda>m. (index m, scoreMessage a m)) (messageDetails a)))"
    by (simp add: o_def)
  from distinct_fst_sort_key [OF this] show ?thesis
    by (simp add: findKeyMessages_def Let_def)
qed

lemma findKeyMessages_text_sessions:
  assumes "allTurnsText lines"
  shows "length (findKeyMessages (analyze N lines)) =
           min (length (turnPositions lines)) (max 10 (length (turnPositions lines) div 5))"
    and "sorted (findKeyMessages (analyze N lines))"
    and "distinct (findKeyMessages (analyze N lines))"
proof -
  have idx: "map index (messageDetails (analyze N lines)) = turnPositions lines"
    by (rule analyze_details_all [OF assms])
  then have "length (messageDetails (analyze N lines)) = length (turnPositions lines)"
    by (metis length_map)
  then show "length (findKeyMessages (analyze N lines)) =
           min (length (turnPositions lines)) (max 10 (length (turnPositions lines) div 5))"
    by (simp add: findKeyMessages_length)
  show "sorted (findKeyMessages (analyze N lines))" by (rule findKeyMessages_sorted)
  show "distinct (findKeyMessages (analyze N lines))"
    by (rule findKeyMessages_distinct) (simp add: idx turnPositions_distinct)
qed

end
